theory Spec2Isabelle
  imports Main
begin

section \<open>JavaScript values\<close>

text \<open>
  Every value that crosses the wire or comes back from the completion API is a JSON
  value. Numbers are the integers (the program only builds and compares integer ids,
  prices and error codes). Strings are lists of 8-bit characters. A JavaScript value
  that may be \<^verbatim>\<open>undefined\<close> is a \<open>json option\<close>, with \<open>None\<close> for
  \<^verbatim>\<open>undefined\<close>.
\<close>

datatype json =
    JNull
  | JBool bool
  | JNum int
  | JStr string
  | JArr "json list"
  | JObj "(string \<times> json) list"

type_synonym jsval = "json option"

datatype error =
    TypeError
  | SyntaxError
  | ApiError string

text \<open>
  The outcome of an operation that awaits: it returns a value, throws, or never
  resumes because the line it awaits never arrives.
\<close>

datatype 'a res = Ok 'a | Throw error | Blocked

text \<open>An object keeps its fields in the order of the text it was read from; when a key
  occurs twice, the later occurrence is the field's value, as in \<^verbatim>\<open>JSON.parse\<close>.\<close>

definition lookup :: "(string \<times> json) list \<Rightarrow> string \<Rightarrow> jsval" where
  "lookup kvs k = map_of (rev kvs) k"

text \<open>Property access \<^verbatim>\<open>x.k\<close>: it throws on \<^verbatim>\<open>undefined\<close> and \<^verbatim>\<open>null\<close>,
  reads an own property of an object, and is \<^verbatim>\<open>undefined\<close> on every other value
  for the property names this program uses.\<close>

fun get_prop :: "string \<Rightarrow> jsval \<Rightarrow> error + jsval" where
  "get_prop k None = Inl TypeError"
| "get_prop k (Some JNull) = Inl TypeError"
| "get_prop k (Some (JObj kvs)) = Inr (lookup kvs k)"
| "get_prop k (Some v) = Inr None"

text \<open>Optional chaining \<^verbatim>\<open>x?.k\<close>.\<close>

fun opt_prop :: "string \<Rightarrow> jsval \<Rightarrow> jsval" where
  "opt_prop k (Some (JObj kvs)) = lookup kvs k"
| "opt_prop k v = None"

text \<open>Indexing \<^verbatim>\<open>x[0]\<close>.\<close>

fun index0 :: "jsval \<Rightarrow> error + jsval" where
  "index0 None = Inl TypeError"
| "index0 (Some JNull) = Inl TypeError"
| "index0 (Some (JArr xs)) = Inr (case xs of [] \<Rightarrow> None | x # _ \<Rightarrow> Some x)"
| "index0 (Some (JStr s)) = Inr (case s of [] \<Rightarrow> None | c # _ \<Rightarrow> Some (JStr [c]))"
| "index0 (Some (JObj kvs)) = Inr (lookup kvs ''0'')"
| "index0 (Some v) = Inr None"

fun truthy :: "jsval \<Rightarrow> bool" where
  "truthy None = False"
| "truthy (Some JNull) = False"
| "truthy (Some (JBool b)) = b"
| "truthy (Some (JNum n)) = (n \<noteq> 0)"
| "truthy (Some (JStr s)) = (s \<noteq> [])"
| "truthy (Some v) = True"

text \<open>\<^verbatim>\<open>a || b\<close> and \<^verbatim>\<open>a && b\<close> on values.\<close>

definition js_or :: "jsval \<Rightarrow> jsval \<Rightarrow> jsval" where
  "js_or a b = (if truthy a then a else b)"

definition js_and :: "jsval \<Rightarrow> jsval \<Rightarrow> jsval" where
  "js_and a b = (if truthy a then b else a)"

text \<open>An object literal whose fields may be \<^verbatim>\<open>undefined\<close>: such a field is left out
  when the object is serialised, which is all this program does with these objects.\<close>

fun mk_obj :: "(string \<times> jsval) list \<Rightarrow> (string \<times> json) list" where
  "mk_obj [] = []"
| "mk_obj ((k, None) # kvs) = mk_obj kvs"
| "mk_obj ((k, Some v) # kvs) = (k, v) # mk_obj kvs"

subsection \<open>Decimal numerals\<close>

definition digit_char :: "int \<Rightarrow> char" where
  "digit_char d = char_of (48 + d)"

definition is_digit :: "char \<Rightarrow> bool" where
  "is_digit c = (48 \<le> (of_char c :: int) \<and> (of_char c :: int) \<le> 57)"

definition digit_val :: "char \<Rightarrow> int" where
  "digit_val c = of_char c - 48"

text \<open>The digits of a number that is not negative, and the number some digits denote.\<close>

function show_digits :: "int \<Rightarrow> string" where
  "show_digits n =
     (if n < 10 then [digit_char n]
      else show_digits (n div 10) @ [digit_char (n mod 10)])"
  by pat_completeness auto
termination
  by (relation "measure nat") auto

declare show_digits.simps [simp del]

definition show_int :: "int \<Rightarrow> string" where
  "show_int i = (if i < 0 then CHR ''-'' # show_digits (- i) else show_digits i)"

definition read_digits :: "string \<Rightarrow> int" where
  "read_digits ds = foldl (\<lambda>a c. 10 * a + digit_val c) 0 ds"

subsection \<open>String conversion and joining\<close>

fun intercalate :: "string \<Rightarrow> string list \<Rightarrow> string" where
  "intercalate sep [] = []"
| "intercalate sep [x] = x"
| "intercalate sep (x # y # ys) = x @ sep @ intercalate sep (y # ys)"

text \<open>\<^verbatim>\<open>String(v)\<close>, which a template literal applies to each value it
  interpolates. An array joins its elements with commas, \<^verbatim>\<open>null\<close> elements as the
  empty string; an object is \<^verbatim>\<open>[object Object]\<close>.\<close>

fun to_str :: "json \<Rightarrow> string" where
  "to_str JNull = ''null''"
| "to_str (JBool b) = (if b then ''true'' else ''false'')"
| "to_str (JNum n) = show_int n"
| "to_str (JStr s) = s"
| "to_str (JArr xs) = intercalate '','' (map (\<lambda>x. if x = JNull then [] else to_str x) xs)"
| "to_str (JObj kvs) = ''[object Object]''"

definition js_string :: "jsval \<Rightarrow> string" where
  "js_string v = (case v of None \<Rightarrow> ''undefined'' | Some x \<Rightarrow> to_str x)"


subsection \<open>JSON.stringify\<close>

definition hex_char :: "int \<Rightarrow> char" where
  "hex_char d = (if d < 10 then char_of (48 + d) else char_of (87 + d))"

definition escape_char :: "char \<Rightarrow> string" where
  "escape_char c =
     (if 32 \<le> (of_char c :: int) then
        (if c = CHR 0x22 then [CHR 0x5C, CHR 0x22]
         else if c = CHR 0x5C then [CHR 0x5C, CHR 0x5C]
         else [c])
      else if c = CHR 0x08 then [CHR 0x5C, CHR ''b'']
      else if c = CHR 0x0C then [CHR 0x5C, CHR ''f'']
      else if c = CHR 0x0A then [CHR 0x5C, CHR ''n'']
      else if c = CHR 0x0D then [CHR 0x5C, CHR ''r'']
      else if c = CHR 0x09 then [CHR 0x5C, CHR ''t'']
      else [CHR 0x5C, CHR ''u'', CHR ''0'', CHR ''0'',
            hex_char ((of_char c :: int) div 16), hex_char ((of_char c :: int) mod 16)])"

definition quote :: "string \<Rightarrow> string" where
  "quote s = CHR 0x22 # concat (map escape_char s) @ [CHR 0x22]"

fun stringify :: "json \<Rightarrow> string" where
  "stringify JNull = ''null''"
| "stringify (JBool b) = (if b then ''true'' else ''false'')"
| "stringify (JNum n) = show_int n"
| "stringify (JStr s) = quote s"
| "stringify (JArr xs) = ''['' @ intercalate '','' (map stringify xs) @ '']''"
| "stringify (JObj kvs) =
     ''{'' @ intercalate '','' (map (\<lambda>kv. quote (fst kv) @ '':'' @ stringify (snd kv)) kvs) @ ''}''"

subsection \<open>JSON.parse\<close>

text \<open>
  A recursive-descent reader of JSON text: insignificant white space, the three
  literals, integer numerals, strings with their escapes, arrays and objects. A
  numeral with a fraction or an exponent and a \<^verbatim>\<open>\u\<close> escape beyond one byte are
  outside the value type and are not read. The recursion is bounded by the length of
  the text.
\<close>

definition is_ws :: "char \<Rightarrow> bool" where
  "is_ws c = (c = CHR '' '' \<or> c = CHR 0x09 \<or> c = CHR 0x0A \<or> c = CHR 0x0D)"

definition skip_ws :: "string \<Rightarrow> string" where
  "skip_ws s = dropWhile is_ws s"

definition starts_with :: "char \<Rightarrow> string \<Rightarrow> bool" where
  "starts_with c s = (case s of [] \<Rightarrow> False | d # _ \<Rightarrow> d = c)"

definition hex_val :: "char \<Rightarrow> int option" where
  "hex_val c =
     (let n = (of_char c :: int) in
      if 48 \<le> n \<and> n \<le> 57 then Some (n - 48)
      else if 97 \<le> n \<and> n \<le> 102 then Some (n - 87)
      else if 65 \<le> n \<and> n \<le> 70 then Some (n - 55)
      else None)"

text \<open>The escape after a backslash: the character it denotes and how many characters
  of the text it takes.\<close>

fun unescape :: "string \<Rightarrow> (char \<times> nat) option" where
  "unescape [] = None"
| "unescape (e # cs) =
     (if e = CHR 0x22 then Some (CHR 0x22, 1)
      else if e = CHR 0x5C then Some (CHR 0x5C, 1)
      else if e = CHR ''/'' then Some (CHR ''/'', 1)
      else if e = CHR ''b'' then Some (CHR 0x08, 1)
      else if e = CHR ''f'' then Some (CHR 0x0C, 1)
      else if e = CHR ''n'' then Some (CHR 0x0A, 1)
      else if e = CHR ''r'' then Some (CHR 0x0D, 1)
      else if e = CHR ''t'' then Some (CHR 0x09, 1)
      else if e = CHR ''u'' then
        (case cs of
           a # b # c # d # _ \<Rightarrow>
             (case (hex_val a, hex_val b, hex_val c, hex_val d) of
                (Some x3, Some x2, Some x1, Some x0) \<Rightarrow>
                  (if x3 = 0 \<and> x2 = 0 then Some (char_of (16 * x1 + x0), 5) else None)
              | _ \<Rightarrow> None)
         | _ \<Rightarrow> None)
      else None)"

text \<open>The body of a string, after its opening quote: the string and the rest of the text.\<close>

fun parse_chars :: "string \<Rightarrow> (string \<times> string) option" where
  "parse_chars [] = None"
| "parse_chars (c # cs) =
     (if c = CHR 0x22 then Some ([], cs)
      else if c = CHR 0x5C then
        (case unescape cs of
           None \<Rightarrow> None
         | Some (ch, k) \<Rightarrow>
             (case parse_chars (drop k cs) of
                None \<Rightarrow> None
              | Some (s, r) \<Rightarrow> Some (ch # s, r)))
      else if (of_char c :: int) < 32 then None
      else (case parse_chars cs of None \<Rightarrow> None | Some (s, r) \<Rightarrow> Some (c # s, r)))"

definition parse_number :: "string \<Rightarrow> (json \<times> string) option" where
  "parse_number s =
     (let neg = (case s of c # _ \<Rightarrow> c = CHR ''-'' | [] \<Rightarrow> False);
          s1 = (if neg then tl s else s);
          ds = takeWhile is_digit s1;
          r = dropWhile is_digit s1
      in if ds = [] then None
         else if hd ds = CHR ''0'' \<and> length ds > 1 then None
         else Some (JNum (if neg then - read_digits ds else read_digits ds), r))"

fun parse_value :: "nat \<Rightarrow> string \<Rightarrow> (json \<times> string) option"
  and parse_elements :: "nat \<Rightarrow> string \<Rightarrow> (json list \<times> string) option"
  and parse_members :: "nat \<Rightarrow> string \<Rightarrow> ((string \<times> json) list \<times> string) option"
where
  "parse_value 0 s = None"
| "parse_value (Suc f) s =
     (case skip_ws s of
        [] \<Rightarrow> None
      | c # cs \<Rightarrow>
          if c = CHR ''{'' then
            (if starts_with (CHR ''}'') (skip_ws cs) then Some (JObj [], tl (skip_ws cs))
             else (case parse_members f cs of None \<Rightarrow> None | Some (kvs, r) \<Rightarrow> Some (JObj kvs, r)))
          else if c = CHR ''['' then
            (if starts_with (CHR '']'') (skip_ws cs) then Some (JArr [], tl (skip_ws cs))
             else (case parse_elements f cs of None \<Rightarrow> None | Some (vs, r) \<Rightarrow> Some (JArr vs, r)))
          else if c = CHR 0x22 then
            (case parse_chars cs of None \<Rightarrow> None | Some (str, r) \<Rightarrow> Some (JStr str, r))
          else if take 4 (c # cs) = ''null'' then Some (JNull, drop 4 (c # cs))
          else if take 4 (c # cs) = ''true'' then Some (JBool True, drop 4 (c # cs))
          else if take 5 (c # cs) = ''false'' then Some (JBool False, drop 5 (c # cs))
          else parse_number (c # cs))"
| "parse_elements 0 s = None"
| "parse_elements (Suc f) s =
     (case parse_value f s of
        None \<Rightarrow> None
      | Some (v, r) \<Rightarrow>
          (case skip_ws r of
             c # r' \<Rightarrow>
               if c = CHR '','' then
                 (case parse_elements f r' of None \<Rightarrow> None | Some (vs, r'') \<Rightarrow> Some (v # vs, r''))
               else if c = CHR '']'' then Some ([v], r')
               else None
           | [] \<Rightarrow> None))"
| "parse_members 0 s = None"
| "parse_members (Suc f) s =
     (case skip_ws s of
        c # cs \<Rightarrow>
          if c = CHR 0x22 then
            (case parse_chars cs of
               None \<Rightarrow> None
             | Some (k, r) \<Rightarrow>
                 (case skip_ws r of
                    c1 # r1 \<Rightarrow>
                      if c1 = CHR '':'' then
                        (case parse_value f r1 of
                           None \<Rightarrow> None
                         | Some (v, r2) \<Rightarrow>
                             (case skip_ws r2 of
                                c2 # r3 \<Rightarrow>
                                  if c2 = CHR '','' then
                                    (case parse_members f r3 of
                                       None \<Rightarrow> None
                                     | Some (kvs, r4) \<Rightarrow> Some ((k, v) # kvs, r4))
                                  else if c2 = CHR ''}'' then Some ([(k, v)], r3)
                                  else None
                              | [] \<Rightarrow> None))
                      else None
                  | [] \<Rightarrow> None))
          else None
      | [] \<Rightarrow> None)"

definition JSON_parse :: "string \<Rightarrow> json option" where
  "JSON_parse s =
     (case parse_value (Suc (length s)) s of
        None \<Rightarrow> None
      | Some (v, r) \<Rightarrow> if skip_ws r = [] then Some v else None)"

section \<open>The server (\<^verbatim>\<open>server/src/index copy.ts\<close>)\<close>

definition serverInfo :: json where
  "serverInfo = JObj [(''name'', JStr ''Coffee Shop Server''), (''version'', JStr ''1.0.0'')]"

record drink =
  drink_name :: string
  drink_price :: int
  drink_description :: string

definition drinks :: "drink list" where
  "drinks =
     [\<lparr>drink_name = ''Latte'', drink_price = 5,
       drink_description = ''A latte is a coffee drink made with espresso and steamed milk.''\<rparr>,
      \<lparr>drink_name = ''Mocha'', drink_price = 6,
       drink_description = ''A mocha is a coffee drink made with espresso and chocolate.''\<rparr>,
      \<lparr>drink_name = ''Flat White'', drink_price = 7,
       drink_description = ''A flat white is a coffee drink made with espresso and steamed milk.''\<rparr>]"

text \<open>A drink as the object literal of the source, with its fields in the order written.\<close>

definition drink_json :: "drink \<Rightarrow> json" where
  "drink_json d =
     JObj [(''name'', JStr (drink_name d)), (''price'', JNum (drink_price d)),
           (''description'', JStr (drink_description d))]"

text \<open>
  What a piece of the server's code does: the lines it writes on the standard output,
  which is the transport the client reads, the exception it throws, if any, and the
  value it returns otherwise.
\<close>

record 'a effect =
  stdout :: "string list"
  thrown :: "error option"
  value_of :: "'a option"

text \<open>One call of \<^verbatim>\<open>console.log\<close> writes its text and a newline; the reader on the
  other side of the pipe cuts the stream at every line break, so a text with a line
  break in it arrives as several lines.\<close>

fun split_lines :: "string \<Rightarrow> string \<Rightarrow> string list" where
  "split_lines acc [] = [rev acc]"
| "split_lines acc (c # cs) =
     (if c = CHR 0x0A then rev acc # split_lines [] cs
      else if c = CHR 0x0D then
        rev acc # split_lines [] (drop (if starts_with (CHR 0x0A) cs then 1 else 0) cs)
      else split_lines (c # acc) cs)"

definition console_log :: "string \<Rightarrow> string list" where
  "console_log text = split_lines [] text"

text \<open>\<^verbatim>\<open>sendResponse(id, result)\<close>: the envelope always carries the second argument under
  \<^verbatim>\<open>result\<close>; an \<^verbatim>\<open>undefined\<close> id is left out by \<^verbatim>\<open>JSON.stringify\<close>.\<close>

definition sendResponse :: "jsval \<Rightarrow> json \<Rightarrow> string list" where
  "sendResponse ident result =
     console_log (stringify (JObj (mk_obj
       [(''result'', Some result), (''jsonrpc'', Some (JStr ''2.0'')), (''id'', ident)])))"

subsection \<open>Resources\<close>

record resource =
  resource_uri :: string
  resource_name :: string
  resource_get :: json

definition resources :: "resource list" where
  "resources =
     [\<lparr>resource_uri = ''menu://app'', resource_name = ''menu'',
       resource_get =
         JObj [(''contents'', JArr [JObj [(''uri'', JStr ''menu://app''),
                 (''text'', JStr (stringify (JArr (map drink_json drinks))))]])]\<rparr>]"

subsection \<open>Tools\<close>

text \<open>\<^verbatim>\<open>toLowerCase\<close> followed by the removal of everything the pattern
  \<^verbatim>\<open>/[^a-z0-9]/gi\<close> matches. On 8-bit characters only the ASCII letters change case
  into something the pattern keeps, so the lowering is written for them.\<close>

definition lower_char :: "char \<Rightarrow> char" where
  "lower_char c =
     (if 65 \<le> (of_char c :: int) \<and> (of_char c :: int) \<le> 90 then char_of ((of_char c :: int) + 32) else c)"

definition is_alnum :: "char \<Rightarrow> bool" where
  "is_alnum c =
     (let n = (of_char c :: int) in
      (97 \<le> n \<and> n \<le> 122) \<or> (65 \<le> n \<and> n \<le> 90) \<or> (48 \<le> n \<and> n \<le> 57))"

definition normalize_str :: "string \<Rightarrow> string" where
  "normalize_str s = filter is_alnum (map lower_char s)"

text \<open>\<^verbatim>\<open>normalize(str)\<close> on any value: \<^verbatim>\<open>(str || "")\<close> replaces a falsy value by the
  empty string, and \<^verbatim>\<open>toLowerCase\<close> exists on strings only.\<close>

definition normalize :: "jsval \<Rightarrow> error + string" where
  "normalize v =
     (case js_or v (Some (JStr [])) of
        Some (JStr s) \<Rightarrow> Inr (normalize_str s)
      | _ \<Rightarrow> Inl TypeError)"

definition text_content :: "string \<Rightarrow> json" where
  "text_content t = JObj [(''content'', JArr [JObj [(''type'', JStr ''text''), (''text'', JStr t)]])]"

definition getDrinkNames_execute :: "jsval \<Rightarrow> json effect" where
  "getDrinkNames_execute args =
     \<lparr>stdout = [], thrown = None,
      value_of = Some (text_content
        (stringify (JObj [(''names'', JArr (map (\<lambda>d. JStr (drink_name d)) drinks))])))\<rparr>"

text \<open>The tool logs what it compares with \<^verbatim>\<open>console.log\<close>, that is, on the standard
  output, before it returns. The logged argument is a string or a falsy value when this
  point is reached, and \<^verbatim>\<open>console.log\<close> prints those as \<^verbatim>\<open>String\<close> does.\<close>

definition getDrinkInfo_execute :: "jsval \<Rightarrow> json effect" where
  "getDrinkInfo_execute args =
     (case get_prop ''name'' args of
        Inl e \<Rightarrow> \<lparr>stdout = [], thrown = Some e, value_of = None\<rparr>
      | Inr raw \<Rightarrow>
          (case normalize raw of
             Inl e \<Rightarrow> \<lparr>stdout = [], thrown = Some e, value_of = None\<rparr>
           | Inr inputName \<Rightarrow>
               \<lparr>stdout =
                  console_log (''Raw input: '' @ js_string raw)
                  @ console_log (''Normalized input: '' @ inputName)
                  @ concat (map (\<lambda>d. console_log (''Raw drink name: '' @ drink_name d
                       @ '' Normalized: '' @ normalize_str (drink_name d))) drinks),
                thrown = None,
                value_of = Some (text_content
                  (case find (\<lambda>d. normalize_str (drink_name d) = inputName) drinks of
                     Some d \<Rightarrow> stringify (drink_json d)
                   | None \<Rightarrow> stringify (JObj [(''error'', JStr ''Drink not found'')])))\<rparr>))"

record tool =
  tool_name :: string
  tool_description :: string
  tool_inputSchema :: json
  tool_execute :: "jsval \<Rightarrow> json effect"

definition tools :: "tool list" where
  "tools =
     [\<lparr>tool_name = ''getDrinkNames'',
       tool_description = ''Get the names of the drinks in the shop'',
       tool_inputSchema = JObj [(''type'', JStr ''object''), (''properties'', JObj [])],
       tool_execute = getDrinkNames_execute\<rparr>,
      \<lparr>tool_name = ''getDrinkInfo'',
       tool_description = ''Get more info about the drink'',
       tool_inputSchema =
         JObj [(''type'', JStr ''object''),
               (''properties'', JObj [(''name'', JObj [(''type'', JStr ''string'')])]),
               (''required'', JArr [JStr ''name''])],
       tool_execute = getDrinkInfo_execute\<rparr>]"

subsection \<open>The request loop\<close>

text \<open>Sequencing of statements that write and may throw: what was written stays
  written, and a throw skips the statements after it.\<close>

definition nothing :: "unit effect" where
  "nothing = \<lparr>stdout = [], thrown = None, value_of = Some ()\<rparr>"

definition emit :: "string list \<Rightarrow> unit effect" where
  "emit ls = \<lparr>stdout = ls, thrown = None, value_of = Some ()\<rparr>"

definition raise :: "error \<Rightarrow> unit effect" where
  "raise e = \<lparr>stdout = [], thrown = Some e, value_of = None\<rparr>"

definition and_then :: "unit effect \<Rightarrow> unit effect \<Rightarrow> unit effect" where
  "and_then a b =
     (case thrown a of
        Some e \<Rightarrow> a
      | None \<Rightarrow> \<lparr>stdout = stdout a @ stdout b, thrown = thrown b, value_of = value_of b\<rparr>)"

text \<open>\<^verbatim>\<open>v === "s"\<close>.\<close>

definition is_str :: "string \<Rightarrow> jsval \<Rightarrow> bool" where
  "is_str s v = (v = Some (JStr s))"

text \<open>The six \<^verbatim>\<open>if\<close> statements, one definition each. The first reads
  \<^verbatim>\<open>json.jsonrpc\<close>, which throws when the line was the text \<^verbatim>\<open>null\<close>; once that read
  has returned, the parsed value is not \<^verbatim>\<open>null\<close> and the reads of \<^verbatim>\<open>json.method\<close>,
  \<^verbatim>\<open>json.id\<close> and \<^verbatim>\<open>json.params\<close> that follow cannot throw. Reading a field of
  \<^verbatim>\<open>json.params\<close> throws when the request has no parameters.\<close>

definition on_initialize :: "json \<Rightarrow> unit effect" where
  "on_initialize json =
     (case get_prop ''jsonrpc'' (Some json) of
        Inl e \<Rightarrow> raise e
      | Inr v \<Rightarrow>
          if is_str ''2.0'' v then
            (if is_str ''initialize'' (opt_prop ''method'' (Some json)) then
               emit (sendResponse (opt_prop ''id'' (Some json))
                 (JObj [(''protocolVersion'', JStr ''2025-03-26''),
                        (''capabilities'',
                           JObj [(''tools'', JObj [(''listChanged'', JBool True)]),
                                 (''resources'', JObj [(''listChanged'', JBool True)])]),
                        (''serverInfo'', serverInfo)]))
             else nothing)
          else nothing)"

definition on_tools_list :: "json \<Rightarrow> unit effect" where
  "on_tools_list json =
     (if is_str ''tools/list'' (opt_prop ''method'' (Some json)) then
        emit (sendResponse (opt_prop ''id'' (Some json))
          (JObj [(''tools'', JArr (map (\<lambda>t.
             JObj [(''name'', JStr (tool_name t)), (''description'', JStr (tool_description t)),
                   (''inputSchema'', tool_inputSchema t)]) tools))]))
      else nothing)"

definition on_tools_call :: "json \<Rightarrow> unit effect" where
  "on_tools_call json =
     (if is_str ''tools/call'' (opt_prop ''method'' (Some json)) then
        (case get_prop ''name'' (opt_prop ''params'' (Some json)) of
           Inl e \<Rightarrow> raise e
         | Inr nm \<Rightarrow>
             (case find (\<lambda>t. is_str (tool_name t) nm) tools of
                Some t \<Rightarrow>
                  (let r = tool_execute t (opt_prop ''arguments'' (opt_prop ''params'' (Some json)))
                   in case value_of r of
                        None \<Rightarrow> \<lparr>stdout = stdout r, thrown = thrown r, value_of = None\<rparr>
                      | Some toolResponse \<Rightarrow>
                          emit (stdout r @ sendResponse (opt_prop ''id'' (Some json)) toolResponse))
              | None \<Rightarrow>
                  emit (sendResponse (opt_prop ''id'' (Some json))
                    (JObj [(''error'',
                       JObj [(''code'', JNum (- 32602)),
                             (''message'', JStr (''MCP error -32602: Tool '' @ js_string nm
                                @ '' not found''))])]))))
      else nothing)"

definition on_resources_list :: "json \<Rightarrow> unit effect" where
  "on_resources_list json =
     (if is_str ''resources/list'' (opt_prop ''method'' (Some json)) then
        emit (sendResponse (opt_prop ''id'' (Some json))
          (JObj [(''resources'', JArr (map (\<lambda>r.
             JObj [(''uri'', JStr (resource_uri r)), (''name'', JStr (resource_name r))]) resources))]))
      else nothing)"

definition on_resources_read :: "json \<Rightarrow> unit effect" where
  "on_resources_read json =
     (if is_str ''resources/read'' (opt_prop ''method'' (Some json)) then
        (case get_prop ''uri'' (opt_prop ''params'' (Some json)) of
           Inl e \<Rightarrow> raise e
         | Inr uri \<Rightarrow>
             (case find (\<lambda>r. is_str (resource_uri r) uri) resources of
                Some r \<Rightarrow> emit (sendResponse (opt_prop ''id'' (Some json)) (resource_get r))
              | None \<Rightarrow>
                  emit (sendResponse (opt_prop ''id'' (Some json))
                    (JObj [(''error'',
                       JObj [(''code'', JNum (- 32602)), (''message'', JStr ''Resource not found'')])]))))
      else nothing)"

definition on_ping :: "json \<Rightarrow> unit effect" where
  "on_ping json =
     (if is_str ''ping'' (opt_prop ''method'' (Some json)) then
        emit (sendResponse (opt_prop ''id'' (Some json)) (JObj []))
      else nothing)"

text \<open>The body of the \<^verbatim>\<open>try\<close> block for one parsed line: the six \<^verbatim>\<open>if\<close> statements
  in the order of the source.\<close>

definition handle :: "json \<Rightarrow> unit effect" where
  "handle json =
     and_then (on_initialize json)
    (and_then (on_tools_list json)
    (and_then (on_tools_call json)
    (and_then (on_resources_list json)
    (and_then (on_resources_read json)
              (on_ping json)))))"

text \<open>One turn of \<^verbatim>\<open>for await (const line of rl)\<close>: the lines written on the standard
  output and the errors the \<^verbatim>\<open>catch\<close> block reports on the standard error. The loop
  goes on to the next line in every case.\<close>

definition server_step :: "string \<Rightarrow> string list \<times> error list" where
  "server_step line =
     (case JSON_parse line of
        None \<Rightarrow> ([], [SyntaxError])
      | Some json \<Rightarrow>
          (let r = handle json
           in (stdout r, case thrown r of None \<Rightarrow> [] | Some e \<Rightarrow> [e])))"

fun server_main :: "string list \<Rightarrow> string list \<times> error list" where
  "server_main [] = ([], [])"
| "server_main (line # rest) =
     (let (out, err) = server_step line; (out', err') = server_main rest
      in (out @ out', err @ err'))"

section \<open>The client (\<^verbatim>\<open>client/src/client_open_ai.ts\<close>, \<^verbatim>\<open>client/src/client.ts\<close>)\<close>

subsection \<open>The transport and \<^verbatim>\<open>send\<close>\<close>

text \<open>
  The process on the other side of the pipe is a state machine that reads one line and
  writes some lines. The session holds the counter \<^verbatim>\<open>lastId\<close>, the lines the client
  has written, the lines the peer has written that no \<^verbatim>\<open>rl.question\<close> has taken yet
  (in the order written), the lines taken so far, and the peer's state. A question takes
  the oldest line that is waiting, as the transport of the specification does; the
  client asks one question per request, right after writing it.
\<close>

type_synonym 'r remote = "'r \<Rightarrow> string \<Rightarrow> string list \<times> 'r"

record 'r session =
  lastId :: nat
  sent :: "string list"
  inbox :: "string list"
  received :: "string list"
  peer :: 'r

text \<open>The repository's server as the peer: it keeps no state between lines.\<close>

definition server_remote :: "unit remote" where
  "server_remote u line = (fst (server_step line), ())"

definition request_line :: "string \<Rightarrow> json \<Rightarrow> jsval \<Rightarrow> string" where
  "request_line method params ident =
     stringify (JObj (mk_obj
       [(''jsonrpc'', Some (JStr ''2.0'')), (''method'', Some (JStr method)),
        (''params'', Some params), (''id'', ident)]))"

text \<open>\<^verbatim>\<open>send(method, params, isNotification)\<close>, the same function in both clients.\<close>

definition send :: "'r remote \<Rightarrow> string \<Rightarrow> json \<Rightarrow> bool \<Rightarrow> 'r session \<Rightarrow> jsval res \<times> 'r session" where
  "send remote method params isNotification s =
     (let line = request_line method params
                   (if isNotification then None else Some (JNum (int (lastId s))));
          (out, p) = remote (peer s) line;
          s1 = s\<lparr>lastId := (if isNotification then lastId s else lastId s + 1),
                 sent := sent s @ [line], inbox := inbox s @ out, peer := p\<rparr>
      in if isNotification then (Ok None, s1)
         else (case inbox s1 of
                 [] \<Rightarrow> (Blocked, s1)
               | l # ls \<Rightarrow>
                   (let s2 = s1\<lparr>inbox := ls, received := received s1 @ [l]\<rparr>
                    in case JSON_parse l of
                         None \<Rightarrow> (Throw SyntaxError, s2)
                       | Some d \<Rightarrow>
                           (case get_prop ''result'' (Some d) of
                              Inl e \<Rightarrow> (Throw e, s2)
                            | Inr v \<Rightarrow> (Ok v, s2)))))"

subsection \<open>Sequencing of awaited operations\<close>

definition then_do :: "'a res \<times> 's \<Rightarrow> ('a \<Rightarrow> 's \<Rightarrow> 'b res \<times> 's) \<Rightarrow> 'b res \<times> 's" where
  "then_do m f =
     (case m of
        (Ok v, s) \<Rightarrow> f v s
      | (Throw e, s) \<Rightarrow> (Throw e, s)
      | (Blocked, s) \<Rightarrow> (Blocked, s))"

definition lift :: "error + 'a \<Rightarrow> 's \<Rightarrow> 'a res \<times> 's" where
  "lift x s = (case x of Inl e \<Rightarrow> (Throw e, s) | Inr v \<Rightarrow> (Ok v, s))"

subsection \<open>The bootstrap sequence\<close>

record catalog =
  cat_serverInfo :: jsval
  cat_tools :: jsval
  cat_resources :: jsval

definition list_meta :: json where
  "list_meta = JObj [(''_meta'', JObj [(''progressToken'', JNum 1)])]"

definition bootstrap :: "'r remote \<Rightarrow> 'r session \<Rightarrow> catalog res \<times> 'r session" where
  "bootstrap remote s0 =
     then_do (send remote ''initialize''
                (JObj [(''protocolVersion'', JStr ''2025-03-26''), (''capabilities'', JObj []),
                       (''clientInfo'',
                          JObj [(''name'', JStr ''diy-client''), (''version'', JStr ''0.1.0'')])])
                False s0) (\<lambda>r s1.
     then_do (lift (get_prop ''serverInfo'' r) s1) (\<lambda>info s1.
     then_do (lift (get_prop ''capabilities'' r) s1) (\<lambda>capabilities s1.
     then_do (send remote ''notifications/initialized'' (JObj []) True s1) (\<lambda>_ s2.
     then_do (lift (get_prop ''tools'' capabilities) s2) (\<lambda>ct s2.
     then_do (if truthy ct
              then then_do (send remote ''tools/list'' list_meta False s2)
                     (\<lambda>v s3. lift (get_prop ''tools'' v) s3)
              else (Ok (Some (JArr [])), s2)) (\<lambda>ts s3.
     then_do (lift (get_prop ''resources'' capabilities) s3) (\<lambda>cr s3.
     then_do (if truthy cr
              then then_do (send remote ''resources/list'' list_meta False s3)
                     (\<lambda>v s4. lift (get_prop ''resources'' v) s4)
              else (Ok (Some (JArr [])), s3)) (\<lambda>rs s4.
     then_do (lift (get_prop ''name'' info) s4) (\<lambda>_ s4.
     then_do (lift (get_prop ''version'' info) s4) (\<lambda>_ s4.
       (Ok \<lparr>cat_serverInfo = info, cat_tools = ts, cat_resources = rs\<rparr>, s4)))))))))))"

text \<open>The bootstrap sequence run again and again on one session; the catalogs of each
  run that reached its end.\<close>

fun bootstraps :: "'r remote \<Rightarrow> nat \<Rightarrow> 'r session \<Rightarrow> catalog res list \<times> 'r session" where
  "bootstraps remote 0 s = ([], s)"
| "bootstraps remote (Suc n) s =
     (let (r, s1) = bootstrap remote s; (rs, s2) = bootstraps remote n s1 in (r # rs, s2))"

text \<open>A sequence of sends made one after the other, as the client makes them; the
  sequence ends at the first send that throws or never resumes.\<close>

fun sends :: "'r remote \<Rightarrow> (string \<times> json \<times> bool) list \<Rightarrow> 'r session \<Rightarrow> jsval res list \<times> 'r session" where
  "sends remote [] s = ([], s)"
| "sends remote ((method, params, isNotification) # rest) s =
     (case send remote method params isNotification s of
        (Ok v, s1) \<Rightarrow> (let (rs, s2) = sends remote rest s1 in (Ok v # rs, s2))
      | (r, s1) \<Rightarrow> ([r], s1))"

subsection \<open>The tool-invocation loop (\<^verbatim>\<open>client_open_ai.ts\<close>)\<close>

record chat_message =
  role :: string
  content :: jsval
  tool_call_id :: jsval
  tool_calls :: "json list option"

text \<open>What the client prints: the final answer, and the three progress reports, kept
  as the values they render.\<close>

datatype console_event =
    Answer string
  | RequestingToolCall jsval jsval
  | ToolResultBeingSent jsval
  | RawFollowUp jsval

text \<open>
  The state of one question: the session, the state of the completion client and the
  conversations sent to it so far, and the variables of the loop.
\<close>

record ('r, 'a) orch =
  sess :: "'r session"
  ai_state :: 'a
  completions :: "chat_message list list"
  messages :: "chat_message list"
  toolCallHistory :: "jsval list"
  toolCallRepeatCount :: nat
  lastToolCallSignature :: string
  finalAnswerGiven :: bool
  console :: "console_event list"




text \<open>\<^verbatim>\<open>tc.function?.name || tc.name\<close> and \<^verbatim>\<open>tc.function?.arguments || tc.input\<close>, on
  a tool call that is neither \<^verbatim>\<open>null\<close> nor \<^verbatim>\<open>undefined\<close>.\<close>

definition call_name :: "jsval \<Rightarrow> jsval" where
  "call_name tc = js_or (opt_prop ''name'' (opt_prop ''function'' tc)) (opt_prop ''name'' tc)"

definition call_arguments :: "jsval \<Rightarrow> jsval" where
  "call_arguments tc = js_or (opt_prop ''arguments'' (opt_prop ''function'' tc)) (opt_prop ''input'' tc)"



text \<open>The tool result as a readable string: the text itself, unless it parses to a
  value with truthy \<^verbatim>\<open>name\<close>, \<^verbatim>\<open>price\<close> and \<^verbatim>\<open>description\<close>.\<close>

definition format_result :: "jsval \<Rightarrow> jsval" where
  "format_result text =
     (case JSON_parse (js_string text) of
        None \<Rightarrow> text
      | Some parsed \<Rightarrow>
          if truthy (Some parsed) \<and> truthy (opt_prop ''name'' (Some parsed))
             \<and> truthy (opt_prop ''price'' (Some parsed))
             \<and> truthy (opt_prop ''description'' (Some parsed))
          then Some (JStr (js_string (opt_prop ''name'' (Some parsed)) @ '': $''
                 @ js_string (opt_prop ''price'' (Some parsed)) @ '' - ''
                 @ js_string (opt_prop ''description'' (Some parsed))))
          else text)"

definition is_executable :: "jsval \<Rightarrow> bool" where
  "is_executable toolCall =
     (is_str ''function'' (opt_prop ''type'' toolCall) \<or> is_str ''tool_use'' (opt_prop ''type'' toolCall))"

definition call_params :: "jsval \<Rightarrow> json" where
  "call_params toolCall =
     JObj (mk_obj [(''name'', call_name toolCall), (''arguments'', call_arguments toolCall)])"

definition on_session ::
  "('r session \<Rightarrow> 'b res \<times> 'r session) \<Rightarrow> ('r, 'a) orch \<Rightarrow> 'b res \<times> ('r, 'a) orch" where
  "on_session f st = (let (r, s) = f (sess st) in (r, st\<lparr>sess := s\<rparr>))"

text \<open>The \<^verbatim>\<open>for (const toolCall of results)\<close> loop.\<close>

fun exec_calls :: "'r remote \<Rightarrow> jsval list \<Rightarrow> ('r, 'a) orch \<Rightarrow> unit res \<times> ('r, 'a) orch" where
  "exec_calls remote [] st = (Ok (), st)"
| "exec_calls remote (toolCall # rest) st =
     (if is_executable toolCall then
        then_do (on_session (send remote ''tools/call'' (call_params toolCall) False)
                   (st\<lparr>console := console st
                        @ [RequestingToolCall (call_name toolCall) (call_arguments toolCall)]\<rparr>))
          (\<lambda>result st1.
        then_do (lift (get_prop ''content'' result) st1) (\<lambda>content st1.
        then_do (lift (index0 content) st1) (\<lambda>first st1.
        then_do (lift (get_prop ''text'' first) st1) (\<lambda>text st1.
          (let toolResultString = format_result text
           in exec_calls remote rest
                (st1\<lparr>console := console st1 @ [ToolResultBeingSent toolResultString],
                     toolCallHistory := toolCallHistory st1 @ [toolResultString],
                     messages := messages st1 @
                       [\<lparr>role = ''tool'', content = toolResultString,
                         tool_call_id = opt_prop ''id'' toolCall, tool_calls = None\<rparr>]\<rparr>))))))
      else exec_calls remote rest st)"



definition final_answer :: "jsval \<Rightarrow> ('r, 'a) orch \<Rightarrow> ('r, 'a) orch" where
  "final_answer promptResult st =
     (case promptResult of
        Some (JStr answer) \<Rightarrow> st\<lparr>console := console st @ [Answer answer], finalAnswerGiven := True\<rparr>
      | _ \<Rightarrow> st)"










text \<open>A peer that plays a script: to each line it reads it writes the next batch of
  lines of the script.\<close>

fun scripted_remote :: "string list list remote" where
  "scripted_remote [] line = ([], [])"
| "scripted_remote (batch # rest) line = (batch, rest)"

definition fresh_session :: "'r \<Rightarrow> 'r session" where
  "fresh_session p = \<lparr>lastId = 0, sent = [], inbox = [], received = [], peer = p\<rparr>"

section \<open>Auxiliary notions for the proofs\<close>

text \<open>A text after which a numeral ends: it is empty or does not go on with a digit.\<close>

definition safe :: "string \<Rightarrow> bool" where
  "safe rest = (rest = [] \<or> \<not> is_digit (hd rest))"

definition opener :: "char \<Rightarrow> bool" where
  "opener c = (c = CHR ''n'' \<or> c = CHR ''t'' \<or> c = CHR ''f'' \<or> c = CHR ''-'' \<or> c = CHR ''[''
     \<or> c = CHR ''{'' \<or> c = CHR 0x22 \<or> is_digit c)"

definition rt :: "json \<Rightarrow> bool" where
  "rt v = (\<forall>f rest. size v < f \<longrightarrow> safe rest \<longrightarrow> parse_value f (stringify v @ rest) = Some (v, rest))"

text \<open>The methods the request loop has a branch for.\<close>

definition known_methods :: "string list" where
  "known_methods =
     [''initialize'', ''tools/list'', ''tools/call'', ''resources/list'', ''resources/read'', ''ping'']"


text \<open>The request the client writes with identifier \<open>n\<close>, and the envelope
  \<^verbatim>\<open>sendResponse\<close> writes for it, as documents.\<close>

definition request_doc :: "string \<Rightarrow> json \<Rightarrow> nat \<Rightarrow> json" where
  "request_doc method params n =
     JObj [(''jsonrpc'', JStr ''2.0''), (''method'', JStr method), (''params'', params),
           (''id'', JNum (int n))]"

definition envelope :: "json \<Rightarrow> nat \<Rightarrow> json" where
  "envelope result n = JObj [(''result'', result), (''jsonrpc'', JStr ''2.0''), (''id'', JNum (int n))]"

text \<open>What the server's literals say the handshake and the two list requests return.\<close>

definition initialize_result :: json where
  "initialize_result =
     JObj [(''protocolVersion'', JStr ''2025-03-26''),
           (''capabilities'',
              JObj [(''tools'', JObj [(''listChanged'', JBool True)]),
                    (''resources'', JObj [(''listChanged'', JBool True)])]),
           (''serverInfo'', serverInfo)]"

definition tool_catalog :: json where
  "tool_catalog =
     JArr [JObj [(''name'', JStr ''getDrinkNames''),
                 (''description'', JStr ''Get the names of the drinks in the shop''),
                 (''inputSchema'', JObj [(''type'', JStr ''object''), (''properties'', JObj [])])],
           JObj [(''name'', JStr ''getDrinkInfo''),
                 (''description'', JStr ''Get more info about the drink''),
                 (''inputSchema'',
                    JObj [(''type'', JStr ''object''),
                          (''properties'', JObj [(''name'', JObj [(''type'', JStr ''string'')])]),
                          (''required'', JArr [JStr ''name''])])]]"

definition resource_catalog :: json where
  "resource_catalog = JArr [JObj [(''uri'', JStr ''menu://app''), (''name'', JStr ''menu'')]]"

definition server_catalog :: catalog where
  "server_catalog =
     \<lparr>cat_serverInfo = Some serverInfo, cat_tools = Some tool_catalog,
      cat_resources = Some resource_catalog\<rparr>"










section \<open>Reading back what \<^verbatim>\<open>JSON.stringify\<close> wrote\<close>

lemma of_char_int_bounds: "0 \<le> (of_char c :: int)" "(of_char c :: int) < 256"
proof -
  have "(of_char c :: int) = int (of_char c)" by (simp add: of_nat_of_char)
  then show "0 \<le> (of_char c :: int)" "(of_char c :: int) < 256"
    using nat_of_char_less_256[of c] by simp_all
qed

lemma digit_val_char: "0 \<le> d \<Longrightarrow> d < 10 \<Longrightarrow> digit_val (digit_char d) = d"
  by (simp add: digit_val_def digit_char_def)

lemma is_digit_char: "0 \<le> d \<Longrightarrow> d < 10 \<Longrightarrow> is_digit (digit_char d)"
  by (simp add: is_digit_def digit_char_def)

lemma read_digits_snoc: "read_digits (ds @ [c]) = 10 * read_digits ds + digit_val c"
  by (simp add: read_digits_def)

lemma show_digits_small: "n < 10 \<Longrightarrow> show_digits n = [digit_char n]"
  by (subst show_digits.simps) simp

lemma show_digits_big:
  "\<not> n < 10 \<Longrightarrow> show_digits n = show_digits (n div 10) @ [digit_char (n mod 10)]"
  by (subst show_digits.simps) simp

lemma show_digits_digits: "0 \<le> n \<Longrightarrow> c \<in> set (show_digits n) \<Longrightarrow> is_digit c"
proof (induction n arbitrary: c rule: show_digits.induct)
  case (1 n)
  show ?case
  proof (cases "n < 10")
    case True
    with "1.prems" show ?thesis by (simp add: show_digits_small is_digit_char)
  next
    case False
    with "1.prems" have "c \<in> set (show_digits (n div 10)) \<or> c = digit_char (n mod 10)"
      by (auto simp: show_digits_big)
    moreover have "0 \<le> n mod 10" "n mod 10 < 10" "0 \<le> n div 10" using "1.prems"(1) by simp_all
    ultimately show ?thesis using "1.IH" False by (auto simp: is_digit_char)
  qed
qed

lemma read_show_digits: "0 \<le> n \<Longrightarrow> read_digits (show_digits n) = n"
proof (induction n rule: show_digits.induct)
  case (1 n)
  show ?case
  proof (cases "n < 10")
    case True
    with "1.prems" show ?thesis
      by (simp add: show_digits_small read_digits_def digit_val_char)
  next
    case False
    have "digit_val (digit_char (n mod 10)) = n mod 10"
      by (simp add: digit_val_char)
    moreover have "read_digits (show_digits (n div 10)) = n div 10"
      using "1.IH" False "1.prems" by simp
    ultimately show ?thesis using False by (simp add: show_digits_big read_digits_snoc)
  qed
qed

lemma show_digits_nonempty: "show_digits n \<noteq> []"
  by (subst show_digits.simps) simp

lemma show_digits_hd0: "0 \<le> n \<Longrightarrow> hd (show_digits n) = CHR ''0'' \<Longrightarrow> n = 0"
proof (induction n rule: show_digits.induct)
  case (1 n)
  show ?case
  proof (cases "n < 10")
    case True
    from True "1.prems" have "digit_char n = CHR ''0''" by (simp add: show_digits_small)
    then have "digit_val (digit_char n) = digit_val (CHR ''0'')" by simp
    then show ?thesis using True "1.prems"(1) by (simp add: digit_val_char) (simp add: digit_val_def)
  next
    case False
    then have "hd (show_digits n) = hd (show_digits (n div 10))"
      by (simp add: show_digits_big show_digits_nonempty)
    with "1.prems" "1.IH" False have "n div 10 = 0" by simp
    with False "1.prems" show ?thesis by simp
  qed
qed

lemma parse_number_show_int:
  assumes "rest = [] \<or> \<not> is_digit (hd rest)"
  shows "parse_number (show_int i @ rest) = Some (JNum i, rest)"
proof -
  have tw: "takeWhile is_digit (show_digits n @ rest) = show_digits n" if "0 \<le> n" for n
    using assms that by (cases rest) (auto simp: takeWhile_append2 show_digits_digits)
  have dw: "dropWhile is_digit (show_digits n @ rest) = rest" if "0 \<le> n" for n
    using assms that by (cases rest) (auto simp: dropWhile_append2 show_digits_digits)
  have nd: "\<not> is_digit (CHR ''-'')" by (simp add: is_digit_def)
  have hd_nm: "hd (show_digits n @ rest) \<noteq> CHR ''-''" if "0 \<le> n" for n
    using show_digits_digits[of n "hd (show_digits n)"] show_digits_nonempty[of n] nd that
    by (cases "show_digits n") auto
  have lead: "\<not> (hd (show_digits n) = CHR ''0'' \<and> length (show_digits n) > 1)" if "0 \<le> n" for n
  proof
    assume a: "hd (show_digits n) = CHR ''0'' \<and> length (show_digits n) > 1"
    then have "n = 0" using show_digits_hd0 that by blast
    then have "show_digits n = [digit_char 0]" by (simp add: show_digits_small)
    with a show False by simp
  qed
  show ?thesis
  proof (cases "i < 0")
    case True
    then have pos: "0 \<le> - i" by simp
    show ?thesis
      using True tw[OF pos] dw[OF pos] lead[OF pos] show_digits_nonempty[of "- i"]
        read_show_digits[OF pos]
      by (simp add: parse_number_def show_int_def Let_def)
  next
    case False
    then have pos: "0 \<le> i" by simp
    have "show_digits i @ rest = hd (show_digits i @ rest) # tl (show_digits i @ rest)"
      using show_digits_nonempty[of i] by simp
    then obtain c cs where cc: "show_digits i @ rest = c # cs" "c \<noteq> CHR ''-''"
      using hd_nm[OF pos] by metis
    show ?thesis
      using False tw[OF pos] dw[OF pos] lead[OF pos] show_digits_nonempty[of i] cc read_show_digits[OF pos]
      by (simp add: parse_number_def show_int_def Let_def)
  qed
qed

lemma hex_val_char: "0 \<le> d \<Longrightarrow> d < 16 \<Longrightarrow> hex_val (hex_char d) = Some d"
  by (simp add: hex_val_def hex_char_def Let_def)

lemma parse_chars_step:
  assumes "parse_chars X = Some (s, rest)"
  shows "parse_chars (escape_char c @ X) = Some (c # s, rest)"
proof -
  let ?n = "of_char c :: int"
  consider (q) "c = CHR 0x22" | (b) "c = CHR 0x5C" | (c8) "c = CHR 0x08" | (cc) "c = CHR 0x0C"
    | (ca) "c = CHR 0x0A" | (cd) "c = CHR 0x0D" | (c9) "c = CHR 0x09"
    | (u) "c \<notin> {CHR 0x22, CHR 0x5C, CHR 0x08, CHR 0x0C, CHR 0x0A, CHR 0x0D, CHR 0x09}" "?n < 32"
    | (plain) "c \<notin> {CHR 0x22, CHR 0x5C, CHR 0x08, CHR 0x0C, CHR 0x0A, CHR 0x0D, CHR 0x09}" "\<not> ?n < 32"
    by blast
  then show ?thesis
  proof cases
    case u
    have d1: "0 \<le> ?n div 16" "?n div 16 < 16" and d0: "0 \<le> ?n mod 16" "?n mod 16 < 16"
      using u(2) of_char_int_bounds[of c] by auto
    have hi: "?n div 16 = 0 \<or> ?n div 16 = 1" using u(2) of_char_int_bounds[of c] by auto
    have cback: "char_of (16 * (?n div 16) + ?n mod 16) = c" by simp
    have e: "escape_char c = [CHR 0x5C, CHR ''u'', CHR ''0'', CHR ''0'', hex_char (?n div 16), hex_char (?n mod 16)]"
      using u by (simp add: escape_char_def)
    have h0: "hex_val (CHR ''0'') = Some 0" by (simp add: hex_val_def)
    show ?thesis
      using assms cback by (simp add: e hex_val_char[OF d1] hex_val_char[OF d0] h0)
  next
    case plain
    then show ?thesis using assms by (simp add: escape_char_def)
  qed (use assms in \<open>simp_all add: escape_char_def\<close>)
qed

lemma parse_chars_escape:
  "parse_chars (concat (map escape_char s) @ CHR 0x22 # rest) = Some (s, rest)"
  by (induction s) (simp_all add: parse_chars_step)

lemma parse_chars_quote:
  "parse_chars (tl (quote s) @ rest) = Some (s, rest)"
  by (simp add: quote_def parse_chars_escape)

lemma skip_ws_start: "\<not> is_ws c \<Longrightarrow> skip_ws (c # cs) = c # cs"
  by (simp add: skip_ws_def)

lemma show_int_start: "\<exists>c cs. show_int i = c # cs \<and> (c = CHR ''-'' \<or> is_digit c)"
proof (cases "i < 0")
  case True
  then show ?thesis by (simp add: show_int_def)
next
  case False
  obtain c cs where "show_digits i = c # cs"
    using show_digits_nonempty[of i] by (cases "show_digits i") auto
  moreover from this have "is_digit c" using show_digits_digits[of i c] False by simp
  ultimately show ?thesis using False by (simp add: show_int_def)
qed

lemma stringify_start: "\<exists>c cs. stringify v = c # cs \<and> opener c"
proof (cases v)
  case (JNum i)
  then show ?thesis using show_int_start[of i] by (auto simp: opener_def)
qed (auto simp: opener_def quote_def)

lemma opener_facts:
  "opener c \<Longrightarrow> \<not> is_ws c \<and> c \<noteq> CHR '']'' \<and> c \<noteq> CHR ''}'' \<and> c \<noteq> CHR '','' \<and> c \<noteq> CHR '':''"
  by (auto simp: opener_def is_ws_def is_digit_def)

lemma parse_value_null: "parse_value (Suc f) (''null'' @ rest) = Some (JNull, rest)"
  by (simp add: skip_ws_def is_ws_def)

lemma parse_value_bool: "parse_value (Suc f) ((if b then ''true'' else ''false'') @ rest) = Some (JBool b, rest)"
  by (simp add: skip_ws_def is_ws_def)

lemma parse_value_str: "parse_value (Suc f) (quote s @ rest) = Some (JStr s, rest)"
  using parse_chars_quote[of s rest]
  by (simp add: skip_ws_def is_ws_def quote_def)

lemma parse_value_num:
  assumes "safe rest"
  shows "parse_value (Suc f) (show_int i @ rest) = Some (JNum i, rest)"
proof -
  obtain c cs where cc: "show_int i = c # cs" "c = CHR ''-'' \<or> is_digit c"
    using show_int_start by blast
  have pn: "parse_number (c # cs @ rest) = Some (JNum i, rest)"
    using parse_number_show_int[of rest i] assms cc by (simp add: safe_def)
  from cc(2) have nw: "\<not> is_ws c" and n1: "c \<noteq> CHR ''{''" and n2: "c \<noteq> CHR ''[''" and n3: "c \<noteq> CHR 0x22"
    and n4: "c \<noteq> CHR ''n''" and n5: "c \<noteq> CHR ''t''" and n6: "c \<noteq> CHR ''f''"
    by (auto simp: is_ws_def is_digit_def)
  show ?thesis
    using pn n1 n2 n3 n4 n5 n6 by (simp add: cc(1) skip_ws_start[OF nw])
qed

lemma safe_close: "safe (CHR '']'' # r)" "safe (CHR ''}'' # r)" "safe (CHR '','' # r)"
  by (simp_all add: safe_def is_digit_def)

lemma intercalate_Cons: "intercalate sep (x # xs) = (if xs = [] then x else x @ sep @ intercalate sep xs)"
  by (cases xs) simp_all

lemma parse_elements_rt:
  assumes "\<And>x. x \<in> set xs \<Longrightarrow> rt x" and "xs \<noteq> []" and "size_list size xs < f"
  shows "parse_elements f (intercalate '','' (map stringify xs) @ CHR '']'' # rest) = Some (xs, rest)"
  using assms
proof (induction xs arbitrary: f)
  case Nil
  then show ?case by simp
next
  case (Cons x xs)
  from Cons.prems(3) obtain f' where f: "f = Suc f'" by (cases f) auto
  have sx: "size x < f'" and sxs: "size_list size xs < f'"
    using Cons.prems(3) f by auto
  have rx: "rt x" using Cons.prems(1) by simp
  show ?case
  proof (cases "xs = []")
    case True
    have "parse_value f' (stringify x @ CHR '']'' # rest) = Some (x, CHR '']'' # rest)"
      using rx sx safe_close(1) by (simp add: rt_def)
    then show ?thesis using True by (simp add: f skip_ws_def is_ws_def)
  next
    case False
    let ?tail = "intercalate '','' (map stringify xs) @ CHR '']'' # rest"
    have pv: "parse_value f' (stringify x @ CHR '','' # ?tail) = Some (x, CHR '','' # ?tail)"
      using rx sx safe_close(3) by (simp add: rt_def)
    have pe: "parse_elements f' ?tail = Some (xs, rest)"
      using Cons.IH[of f'] Cons.prems(1) False sxs by simp
    show ?thesis using False pv pe by (simp add: f intercalate_Cons skip_ws_def is_ws_def)
  qed
qed

lemma parse_members_rt:
  assumes "\<And>k v. (k, v) \<in> set kvs \<Longrightarrow> rt v" and "kvs \<noteq> []"
    and "size_list (size_prod (\<lambda>x. 0) size) kvs < f"
  shows "parse_members f (intercalate '','' (map (\<lambda>kv. quote (fst kv) @ '':'' @ stringify (snd kv)) kvs)
           @ CHR ''}'' # rest) = Some (kvs, rest)"
  using assms
proof (induction kvs arbitrary: f)
  case Nil
  then show ?case by simp
next
  case (Cons kv kvs)
  obtain k v where kv: "kv = (k, v)" by (cases kv)
  from Cons.prems(3) obtain f' where f: "f = Suc f'" by (cases f) auto
  have sx: "size v < f'" and sxs: "size_list (size_prod (\<lambda>x. 0) size) kvs < f'"
    using Cons.prems(3) f kv by auto
  have rx: "rt v" using Cons.prems(1)[of k v] kv by simp
  have key: "parse_chars (concat (map escape_char k) @ CHR 0x22 # CHR '':'' # X) = Some (k, CHR '':'' # X)" for X
    by (rule parse_chars_escape)
  show ?case
  proof (cases "kvs = []")
    case True
    have "parse_value f' (stringify v @ CHR ''}'' # rest) = Some (v, CHR ''}'' # rest)"
      using rx sx safe_close(2) by (simp add: rt_def)
    then show ?thesis using True key by (simp add: f kv quote_def skip_ws_def is_ws_def)
  next
    case False
    let ?tail = "intercalate '','' (map (\<lambda>kv. quote (fst kv) @ '':'' @ stringify (snd kv)) kvs) @ CHR ''}'' # rest"
    have pv: "parse_value f' (stringify v @ CHR '','' # ?tail) = Some (v, CHR '','' # ?tail)"
      using rx sx safe_close(3) by (simp add: rt_def)
    have "\<And>k v. (k, v) \<in> set kvs \<Longrightarrow> rt v"
      using Cons.prems(1) by (meson list.set_intros(2))
    then have pe: "parse_members f' ?tail = Some (kvs, rest)"
      using Cons.IH[of f'] False sxs by blast
    show ?thesis using False pv pe key by (simp add: f kv intercalate_Cons quote_def skip_ws_def is_ws_def)
  qed
qed

lemma intercalate_start:
  assumes "xs \<noteq> []" and "\<And>x. x \<in> set xs \<Longrightarrow> \<exists>c cs. g x = c # cs \<and> Q c"
  shows "\<exists>c cs. intercalate sep (map g xs) @ r = c # cs \<and> Q c"
proof -
  obtain x xs' where xs: "xs = x # xs'" using assms(1) by (cases xs) auto
  obtain c cs where "g x = c # cs" "Q c" using assms(2)[of x] xs by auto
  then show ?thesis by (cases xs') (auto simp: xs)
qed

lemma rt_all: "rt v"
proof (induction v)
  case JNull
  show ?case unfolding rt_def
  proof (intro allI impI)
    fix f :: nat and rest assume "size JNull < f"
    then obtain f' where "f = Suc f'" by (cases f) auto
    then show "parse_value f (stringify JNull @ rest) = Some (JNull, rest)"
      using parse_value_null by simp
  qed
next
  case (JBool b)
  show ?case unfolding rt_def
  proof (intro allI impI)
    fix f :: nat and rest assume "size (JBool b) < f"
    then obtain f' where "f = Suc f'" by (cases f) auto
    then show "parse_value f (stringify (JBool b) @ rest) = Some (JBool b, rest)"
      using parse_value_bool[of f' b rest] by simp
  qed
next
  case (JNum i)
  show ?case unfolding rt_def
  proof (intro allI impI)
    fix f :: nat and rest assume "size (JNum i) < f" and s: "safe rest"
    then obtain f' where "f = Suc f'" by (cases f) auto
    then show "parse_value f (stringify (JNum i) @ rest) = Some (JNum i, rest)"
      using parse_value_num[OF s] by simp
  qed
next
  case (JStr s)
  show ?case unfolding rt_def
  proof (intro allI impI)
    fix f :: nat and rest assume "size (JStr s) < f"
    then obtain f' where "f = Suc f'" by (cases f) auto
    then show "parse_value f (stringify (JStr s) @ rest) = Some (JStr s, rest)"
      using parse_value_str by simp
  qed
next
  case (JArr xs)
  show ?case unfolding rt_def
  proof (intro allI impI)
    fix f :: nat and rest assume sz: "size (JArr xs) < f"
    then obtain f' where f: "f = Suc f'" by (cases f) auto
    show "parse_value f (stringify (JArr xs) @ rest) = Some (JArr xs, rest)"
    proof (cases "xs = []")
      case True
      then show ?thesis by (simp add: f skip_ws_def is_ws_def starts_with_def)
    next
      case False
      let ?body = "intercalate '','' (map stringify xs) @ CHR '']'' # rest"
      obtain c cs where st: "?body = c # cs" "opener c"
        using intercalate_start[OF False, of stringify opener] stringify_start by blast
      have nst: "\<not> starts_with (CHR '']'') (skip_ws ?body)"
        using st opener_facts[of c] by (simp add: skip_ws_start starts_with_def)
      have pe: "parse_elements f' ?body = Some (xs, rest)"
        using parse_elements_rt[of xs f' rest] JArr False sz f by simp
      show ?thesis using nst pe by (simp add: f skip_ws_def is_ws_def)
    qed
  qed
next
  case (JObj kvs)
  show ?case unfolding rt_def
  proof (intro allI impI)
    fix f :: nat and rest assume sz: "size (JObj kvs) < f"
    then obtain f' where f: "f = Suc f'" by (cases f) auto
    show "parse_value f (stringify (JObj kvs) @ rest) = Some (JObj kvs, rest)"
    proof (cases "kvs = []")
      case True
      then show ?thesis by (simp add: f skip_ws_def is_ws_def starts_with_def)
    next
      case False
      let ?g = "\<lambda>kv. quote (fst kv) @ '':'' @ stringify (snd kv)"
      let ?body = "intercalate '','' (map ?g kvs) @ CHR ''}'' # rest"
      have "\<And>x. x \<in> set kvs \<Longrightarrow> \<exists>c cs. ?g x = c # cs \<and> opener c"
        by (simp add: quote_def opener_def)
      then obtain c cs where st: "?body = c # cs" "opener c"
        using intercalate_start[OF False, of ?g opener] by blast
      have nst: "\<not> starts_with (CHR ''}'') (skip_ws ?body)"
        using st opener_facts[of c] by (simp add: skip_ws_start starts_with_def)
      have ih: "\<And>k v. (k, v) \<in> set kvs \<Longrightarrow> rt v"
        using JObj by fastforce
      have pe: "parse_members f' ?body = Some (kvs, rest)"
        using parse_members_rt[of kvs f' rest] ih False sz f by simp
      show ?thesis using nst pe by (simp add: f skip_ws_def is_ws_def)
    qed
  qed
qed

lemma size_le_length: "size v \<le> length (stringify v)"
proof (induction v)
  case (JArr xs)
  have "size_list size xs \<le> length (intercalate '','' (map stringify xs)) + 1"
    using JArr
  proof (induction xs)
    case Nil
    then show ?case by simp
  next
    case (Cons x xs)
    then show ?case by (cases xs) (auto simp: intercalate_Cons add_mono le_SucI)
  qed
  then show ?case by simp
next
  case (JObj kvs)
  have "size_list (size_prod (\<lambda>x. 0) size) kvs \<le> length (intercalate '','' (map (\<lambda>kv. quote (fst kv) @ '':'' @ stringify (snd kv)) kvs)) + 1"
    using JObj
  proof (induction kvs)
    case Nil
    then show ?case by simp
  next
    case (Cons kv kvs)
    obtain k v where kv: "kv = (k, v)" by (cases kv)
    have "size v \<le> length (stringify v)" using Cons.prems kv by fastforce
    moreover have "size_list (size_prod (\<lambda>x. 0) size) kvs \<le> length (intercalate '','' (map (\<lambda>kv. quote (fst kv) @ '':'' @ stringify (snd kv)) kvs)) + 1"
      using Cons by fastforce
    ultimately show ?case by (simp add: kv intercalate_Cons quote_def)
  qed
  then show ?case by simp
qed simp_all

lemma parse_stringify: "JSON_parse (stringify v) = Some v"
proof -
  have "parse_value (Suc (length (stringify v))) (stringify v @ []) = Some (v, [])"
    using rt_all[of v] size_le_length[of v] by (simp add: rt_def safe_def del: parse_value.simps)
  then show ?thesis by (simp add: JSON_parse_def skip_ws_def del: parse_value.simps)
qed

section \<open>Lemmas about the server\<close>

declare stringify.simps [simp del]

lemma set_intercalate: "set (intercalate sep xs) \<subseteq> set sep \<union> (\<Union>x \<in> set xs. set x)"
  by (induction sep xs rule: intercalate.induct) auto

lemma hex_char_plain: "0 \<le> d \<Longrightarrow> d < 16 \<Longrightarrow> hex_char d \<noteq> CHR 0x0A \<and> hex_char d \<noteq> CHR 0x0D"
proof -
  assume "0 \<le> d" "d < 16"
  then have "(of_char (hex_char d) :: int) \<ge> 48"
    by (simp add: hex_char_def)
  then show ?thesis by auto
qed

lemma escape_char_plain: "c' \<in> set (escape_char c) \<Longrightarrow> c' \<noteq> CHR 0x0A \<and> c' \<noteq> CHR 0x0D"
proof -
  assume a: "c' \<in> set (escape_char c)"
  have d: "0 \<le> (of_char c :: int) div 16" "(of_char c :: int) div 16 < 16"
    "0 \<le> (of_char c :: int) mod 16" "(of_char c :: int) mod 16 < 16"
    using of_char_int_bounds[of c] by auto
  have plain: "(of_char c :: int) \<ge> 32 \<Longrightarrow> c \<noteq> CHR 0x0A \<and> c \<noteq> CHR 0x0D" by auto
  show ?thesis
    using a hex_char_plain[OF d(1,2)] hex_char_plain[OF d(3,4)] plain
    by (auto simp: escape_char_def split: if_splits)
qed

lemma quote_plain: "c \<in> set (quote s) \<Longrightarrow> c \<noteq> CHR 0x0A \<and> c \<noteq> CHR 0x0D"
  using escape_char_plain by (auto simp: quote_def)

lemma show_int_plain: "c \<in> set (show_int i) \<Longrightarrow> c \<noteq> CHR 0x0A \<and> c \<noteq> CHR 0x0D"
proof -
  assume "c \<in> set (show_int i)"
  then have "c = CHR ''-'' \<or> is_digit c"
    using show_digits_digits[of i c] show_digits_digits[of "- i" c] by (auto simp: show_int_def split: if_splits)
  then show ?thesis by (auto simp: is_digit_def)
qed

lemma stringify_plain: "c \<in> set (stringify v) \<Longrightarrow> c \<noteq> CHR 0x0A \<and> c \<noteq> CHR 0x0D"
proof (induction v arbitrary: c)
  case (JArr xs)
  have "set (stringify (JArr xs)) \<subseteq> {CHR ''['', CHR '']'', CHR '',''} \<union> (\<Union>x \<in> set xs. set (stringify x))"
    using set_intercalate[of "'',''" "map stringify xs"] by (auto simp: stringify.simps)
  with JArr.prems have "c \<in> {CHR ''['', CHR '']'', CHR '',''} \<or> (\<exists>x \<in> set xs. c \<in> set (stringify x))"
    by blast
  then show ?case using JArr.IH by auto
next
  case (JObj kvs)
  let ?g = "\<lambda>kv. quote (fst kv) @ '':'' @ stringify (snd kv)"
  have "set (stringify (JObj kvs)) \<subseteq> {CHR ''{'', CHR ''}'', CHR '',''} \<union> (\<Union>kv \<in> set kvs. set (?g kv))"
    using set_intercalate[of "'',''" "map ?g kvs"] by (auto simp: stringify.simps)
  with JObj.prems have "c \<in> {CHR ''{'', CHR ''}'', CHR '',''} \<or> (\<exists>kv \<in> set kvs. c \<in> set (?g kv))"
    by blast
  moreover have "c \<noteq> CHR 0x0A \<and> c \<noteq> CHR 0x0D" if "kv \<in> set kvs" "c \<in> set (?g kv)" for kv
  proof -
    obtain k v where kv: "kv = (k, v)" by (cases kv)
    from that(2) kv have "c \<in> set (quote k) \<or> c = CHR '':'' \<or> c \<in> set (stringify v)" by auto
    moreover have "c \<in> set (stringify v) \<Longrightarrow> c \<noteq> CHR 0x0A \<and> c \<noteq> CHR 0x0D"
      using JObj.IH[of kv v c] that(1) kv by simp
    ultimately show ?thesis using quote_plain[of c k] by auto
  qed
  ultimately show ?case by auto
qed (auto simp: stringify.simps dest: quote_plain show_int_plain split: if_splits)

lemma split_lines_plain:
  "(\<And>c. c \<in> set s \<Longrightarrow> c \<noteq> CHR 0x0A \<and> c \<noteq> CHR 0x0D) \<Longrightarrow> split_lines acc s = [rev acc @ s]"
  by (induction s arbitrary: acc) simp_all

lemma console_log_stringify: "console_log (stringify v) = [stringify v]"
  using split_lines_plain[of "stringify v" "[]"] stringify_plain
  by (simp add: console_log_def)

lemma sendResponse_line:
  "sendResponse ident result =
     [stringify (JObj (mk_obj [(''result'', Some result), (''jsonrpc'', Some (JStr ''2.0'')), (''id'', ident)]))]"
  by (simp add: sendResponse_def console_log_stringify)

lemma and_then_nothing: "and_then nothing e = e"
  by (simp add: and_then_def nothing_def)

lemma handle_unknown:
  assumes "\<forall>m \<in> set known_methods. opt_prop ''method'' (Some j) \<noteq> Some (JStr m)"
  shows "stdout (handle j) = []"
proof -
  have m: "\<not> is_str ''initialize'' (opt_prop ''method'' (Some j))"
    "\<not> is_str ''tools/list'' (opt_prop ''method'' (Some j))"
    "\<not> is_str ''tools/call'' (opt_prop ''method'' (Some j))"
    "\<not> is_str ''resources/list'' (opt_prop ''method'' (Some j))"
    "\<not> is_str ''resources/read'' (opt_prop ''method'' (Some j))"
    "\<not> is_str ''ping'' (opt_prop ''method'' (Some j))"
    using assms by (simp_all add: known_methods_def is_str_def)
  have rest: "on_tools_list j = nothing" "on_tools_call j = nothing" "on_resources_list j = nothing"
    "on_resources_read j = nothing" "on_ping j = nothing"
    using m by (simp_all add: on_tools_list_def on_tools_call_def on_resources_list_def
        on_resources_read_def on_ping_def)
  have init: "on_initialize j = nothing \<or> on_initialize j = raise TypeError"
    using m(1) by (cases j) (simp_all add: on_initialize_def)
  then show ?thesis
    by (auto simp: handle_def rest and_then_nothing) (simp_all add: nothing_def and_then_def raise_def)
qed







section \<open>Lemmas about the client talking to the server\<close>

lemma request_line_doc: "request_line m p (Some (JNum (int n))) = stringify (request_doc m p n)"
  by (simp add: request_line_def request_doc_def)

lemma parse_request_line: "JSON_parse (request_line m p (Some (JNum (int n)))) = Some (request_doc m p n)"
  by (simp add: request_line_doc parse_stringify)

lemma request_doc_fields:
  "opt_prop ''method'' (Some (request_doc m p n)) = Some (JStr m)"
  "opt_prop ''id'' (Some (request_doc m p n)) = Some (JNum (int n))"
  "opt_prop ''params'' (Some (request_doc m p n)) = Some p"
  "get_prop ''jsonrpc'' (Some (request_doc m p n)) = Inr (Some (JStr ''2.0''))"
  by (simp_all add: request_doc_def lookup_def)

lemma sendResponse_envelope: "sendResponse (Some (JNum (int n))) r = [stringify (envelope r n)]"
  by (simp add: sendResponse_line envelope_def)

lemma server_unknown_method:
  assumes "m \<notin> set known_methods"
  shows "fst (server_step (request_line m p (Some (JNum (int n))))) = []"
proof -
  have "\<forall>k \<in> set known_methods. opt_prop ''method'' (Some (request_doc m p n)) \<noteq> Some (JStr k)"
    using assms by (auto simp: request_doc_fields)
  then show ?thesis
    using handle_unknown by (simp add: server_step_def parse_request_line Let_def)
qed

lemma send_blocked:
  assumes "m \<notin> set known_methods" and "inbox s = []"
  shows "fst (send server_remote m p False s) = Blocked"
  using server_unknown_method[OF assms(1), of p "lastId s"] assms(2)
  by (simp add: send_def server_remote_def Let_def)

lemma parse_notification:
  "JSON_parse (request_line m p None) = Some (JObj [(''jsonrpc'', JStr ''2.0''), (''method'', JStr m), (''params'', p)])"
  by (simp add: request_line_def parse_stringify)

lemma server_notification:
  assumes "m \<notin> set known_methods"
  shows "fst (server_step (request_line m p None)) = []"
proof -
  have "\<forall>k \<in> set known_methods. opt_prop ''method'' (Some (JObj [(''jsonrpc'', JStr ''2.0''), (''method'', JStr m), (''params'', p)])) \<noteq> Some (JStr k)"
    using assms by (auto simp: lookup_def)
  then show ?thesis
    using handle_unknown by (simp add: server_step_def parse_notification Let_def)
qed

lemma send_notification:
  assumes "m \<notin> set known_methods"
  shows "send server_remote m p True s = (Ok None, s\<lparr>sent := sent s @ [request_line m p None]\<rparr>)"
  using server_notification[OF assms, of p]
  by (simp add: send_def server_remote_def Let_def)

lemma handle_initialize:
  "handle (request_doc ''initialize'' p n) = emit [stringify (envelope initialize_result n)]"
  by (simp add: handle_def on_initialize_def on_tools_list_def on_tools_call_def
      on_resources_list_def on_resources_read_def on_ping_def request_doc_fields is_str_def
      sendResponse_envelope initialize_result_def and_then_def nothing_def emit_def)

lemma handle_tools_list:
  "handle (request_doc ''tools/list'' p n) = emit [stringify (envelope (JObj [(''tools'', tool_catalog)]) n)]"
  by (simp add: handle_def on_initialize_def on_tools_list_def on_tools_call_def
      on_resources_list_def on_resources_read_def on_ping_def request_doc_fields is_str_def
      sendResponse_envelope tool_catalog_def tools_def and_then_def nothing_def emit_def)

lemma handle_resources_list:
  "handle (request_doc ''resources/list'' p n) =
     emit [stringify (envelope (JObj [(''resources'', resource_catalog)]) n)]"
  by (simp add: handle_def on_initialize_def on_tools_list_def on_tools_call_def
      on_resources_list_def on_resources_read_def on_ping_def request_doc_fields is_str_def
      sendResponse_envelope resource_catalog_def resources_def and_then_def nothing_def emit_def)

lemma send_answered:
  assumes "handle (request_doc m p (lastId s)) = emit [stringify (envelope r (lastId s))]"
    and "inbox s = []"
  shows "send server_remote m p False s =
           (Ok (Some r),
            s\<lparr>lastId := lastId s + 1,
              sent := sent s @ [stringify (request_doc m p (lastId s))],
              received := received s @ [stringify (envelope r (lastId s))]\<rparr>)"
  using assms
  by (simp add: send_def server_remote_def server_step_def parse_request_line Let_def emit_def
      parse_stringify request_line_doc envelope_def lookup_def)

lemma then_do_simps [simp]:
  "then_do (Ok v, s) f = f v s"
  "then_do (Throw e, s) f = (Throw e, s)"
  "then_do (Blocked, s) f = (Blocked, s)"
  by (simp_all add: then_do_def)

lemma lift_simps [simp]:
  "lift (Inr v) s = (Ok v, s)"
  "lift (Inl e) s = (Throw e, s)"
  by (simp_all add: lift_def)

lemma bootstrap_server:
  assumes "inbox s = []"
  shows "fst (bootstrap server_remote s) = Ok server_catalog
         \<and> inbox (snd (bootstrap server_remote s)) = []
         \<and> lastId (snd (bootstrap server_remote s)) = lastId s + 3"
proof -
  have nk: "''notifications/initialized'' \<notin> set known_methods"
    by (simp add: known_methods_def)
  show ?thesis
    by (simp add: bootstrap_def send_answered[OF handle_initialize] send_answered[OF handle_tools_list]
        send_answered[OF handle_resources_list] send_notification[OF nk] assms
        initialize_result_def lookup_def serverInfo_def server_catalog_def)
qed

lemma bootstraps_server:
  "inbox s = [] \<Longrightarrow> fst (bootstraps server_remote k s) = replicate k (Ok server_catalog)"
proof (induction k arbitrary: s)
  case 0
  then show ?case by simp
next
  case (Suc k)
  obtain r s1 where b: "bootstrap server_remote s = (r, s1)" by (cases "bootstrap server_remote s")
  with bootstrap_server[OF Suc.prems] have r: "r = Ok server_catalog" and i: "inbox s1 = []" by simp_all
  obtain rs s2 where bs: "bootstraps server_remote k s1 = (rs, s2)" by (cases "bootstraps server_remote k s1")
  with Suc.IH[OF i] have "rs = replicate k (Ok server_catalog)" by simp
  then show ?case using b bs r by simp
qed

lemma server_main_append:
  "server_main (xs @ ys) = (fst (server_main xs) @ fst (server_main ys), snd (server_main xs) @ snd (server_main ys))"
  by (induction xs) (simp_all add: case_prod_unfold Let_def)

text \<open>Every send that is not a notification takes the next identifier; a notification
  takes none, carries none and reads no line.\<close>

lemma send_takes_next_id:
  "sent (snd (send remote m p False s)) = sent s @ [request_line m p (Some (JNum (int (lastId s))))]"
  "lastId (snd (send remote m p False s)) = lastId s + 1"
  "sent (snd (send remote m p True s)) = sent s @ [request_line m p None]"
  "lastId (snd (send remote m p True s)) = lastId s"
  "received (snd (send remote m p True s)) = received s"
  "fst (send remote m p True s) = Ok None"
  by (simp_all add: send_def Let_def case_prod_unfold split: list.splits option.splits sum.splits)

section \<open>Lemmas about the tool-invocation loop\<close>


lemma exec_calls_skip: "\<not> is_executable tc \<Longrightarrow> exec_calls remote (tc # rest) st = exec_calls remote rest st"
  by simp







lemma final_answer_fields [simp]:
  "sess (final_answer r st) = sess st"
  "messages (final_answer r st) = messages st"
  "toolCallHistory (final_answer r st) = toolCallHistory st"
  "completions (final_answer r st) = completions st"
  "ai_state (final_answer r st) = ai_state st"
  "toolCallRepeatCount (final_answer r st) = toolCallRepeatCount st"
  "lastToolCallSignature (final_answer r st) = lastToolCallSignature st"
  by (simp_all add: final_answer_def split: option.splits json.splits)

















section \<open>The claims about the server\<close>


text \<open>
  C4. A \<^verbatim>\<open>tools/call\<close> request that names no tool of the server: the line the server
  writes for the request \<^verbatim>\<open>{"jsonrpc":"2.0","id":1,"method":"tools/call","params":{"name":"nope","arguments":{}}}\<close>
  carries the error object inside \<^verbatim>\<open>result\<close>; the envelope has a top-level \<^verbatim>\<open>result\<close>
  and no top-level \<^verbatim>\<open>error\<close>.
\<close>

theorem unknown_tool_error_is_nested_in_result:
  \<open>server_step ''{"jsonrpc":"2.0","id":1,"method":"tools/call","params":{"name":"nope","arguments":{}}}''
     = ([''{"result":{"error":{"code":-32602,"message":"MCP error -32602: Tool nope not found"}},"jsonrpc":"2.0","id":1}''], [])
   \<and> map_option (opt_prop ''error'' \<circ> Some)
         (JSON_parse ''{"result":{"error":{"code":-32602,"message":"MCP error -32602: Tool nope not found"}},"jsonrpc":"2.0","id":1}'')
       = Some None\<close>
  by code_simp

section \<open>The claims about requests and replies\<close>

text \<open>
  C3, as the code has it. A reply line whose envelope is an object with an \<^verbatim>\<open>error\<close>
  field and no \<^verbatim>\<open>result\<close> field does not make \<^verbatim>\<open>send\<close> fail: the call completes and
  returns \<^verbatim>\<open>undefined\<close>, the absent \<^verbatim>\<open>result\<close>; the error's code and message are not
  read.
\<close>

theorem send_returns_undefined_on_error_reply:
  assumes "inbox s = []"
    and "fst (remote (peer s) (request_line m p (Some (JNum (int (lastId s)))))) = l # others"
    and "JSON_parse l = Some (JObj kvs)"
    and "lookup kvs ''error'' = Some e"
    and "lookup kvs ''result'' = None"
  shows "fst (send remote m p False s) = Ok None"
  using assms by (simp add: send_def Let_def case_prod_unfold)

text \<open>C3, witness: a peer that answers with a JSON-RPC error envelope.\<close>

theorem send_returns_undefined_on_error_reply_witness:
  \<open>inbox (fresh_session [[''{"jsonrpc":"2.0","id":0,"error":{"code":-32601,"message":"Method not found"}}'']]) = []
   \<and> JSON_parse ''{"jsonrpc":"2.0","id":0,"error":{"code":-32601,"message":"Method not found"}}''
       = Some (JObj [(''jsonrpc'', JStr ''2.0''), (''id'', JNum 0),
            (''error'', JObj [(''code'', JNum (- 32601)), (''message'', JStr ''Method not found'')])])
   \<and> fst (send scripted_remote ''resources/subscribe'' (JObj []) False
         (fresh_session [[''{"jsonrpc":"2.0","id":0,"error":{"code":-32601,"message":"Method not found"}}'']]))
       = Ok None\<close>
proof -
  let ?l = \<open>''{"jsonrpc":"2.0","id":0,"error":{"code":-32601,"message":"Method not found"}}''\<close>
  let ?kvs = "[(''jsonrpc'', JStr ''2.0''), (''id'', JNum 0),
            (''error'', JObj [(''code'', JNum (- 32601)), (''message'', JStr ''Method not found'')])]"
  have h1: "inbox (fresh_session [[?l]]) = []" by (simp add: fresh_session_def)
  have h2: "fst (scripted_remote (peer (fresh_session [[?l]]))
              (request_line ''resources/subscribe'' (JObj []) (Some (JNum (int (lastId (fresh_session [[?l]])))))))
            = ?l # []"
    by (simp add: fresh_session_def)
  have h3: "JSON_parse ?l = Some (JObj ?kvs)" by code_simp
  have h4: "lookup ?kvs ''error'' = Some (JObj [(''code'', JNum (- 32601)), (''message'', JStr ''Method not found'')])"
    by (simp add: lookup_def)
  have h5: "lookup ?kvs ''result'' = None" by (simp add: lookup_def)
  from send_returns_undefined_on_error_reply[where s = "fresh_session [[?l]]" and remote = scripted_remote
      and m = "''resources/subscribe''" and p = "JObj []" and l = ?l and others = "[]" and kvs = ?kvs]
    h1 h2 h3 h4 h5
  show ?thesis by blast
qed

text \<open>C3, counterexample: the call that reads a JSON-RPC error envelope completes
  normally with \<^verbatim>\<open>undefined\<close>; it does not fail.\<close>

theorem send_error_reply_counterexample:
  \<open>fst (send scripted_remote ''tools/call'' (JObj [(''name'', JStr ''nope''), (''arguments'', JObj [])]) False
         (fresh_session [[''{"jsonrpc":"2.0","id":0,"error":{"code":-32602,"message":"Tool nope not found"}}'']]))
     = Ok None\<close>
  by code_simp

text \<open>
  C6, at the failing input. The call \<^verbatim>\<open>tools/call\<close> of \<^verbatim>\<open>getDrinkInfo\<close> for \<^verbatim>\<open>Latte\<close>,
  first call of a session: the server writes its five log lines and then the response
  envelope with identifier 0; the call takes the first log line as its reply and throws
  on parsing it, and the envelope with its identifier stays unread.
\<close>

theorem getDrinkInfo_call_reads_log_line:
  \<open>fst (send server_remote ''tools/call''
          (JObj [(''name'', JStr ''getDrinkInfo''), (''arguments'', JObj [(''name'', JStr ''Latte'')])])
          False (fresh_session ())) = Throw SyntaxError
   \<and> received (snd (send server_remote ''tools/call''
          (JObj [(''name'', JStr ''getDrinkInfo''), (''arguments'', JObj [(''name'', JStr ''Latte'')])])
          False (fresh_session ()))) = [''Raw input: Latte'']
   \<and> map JSON_parse (inbox (snd (send server_remote ''tools/call''
          (JObj [(''name'', JStr ''getDrinkInfo''), (''arguments'', JObj [(''name'', JStr ''Latte'')])])
          False (fresh_session ()))))
       = [None, None, None, None,
          Some (envelope (text_content ''{"name":"Latte","price":5,"description":"A latte is a coffee drink made with espresso and steamed milk."}'') 0)]\<close>
  by code_simp

text \<open>
  C7, as the code has it. The server reports a line that is not JSON and goes on: what
  it writes for the lines around it is what it writes for them without the bad line. The
  client does not skip: when the next line it reads for a pending call is not JSON, the
  call throws a \<^verbatim>\<open>SyntaxError\<close>, and the lines after it are not delivered to that call.
\<close>

theorem malformed_line_server_skips_client_throws:
  "(JSON_parse bad = None \<longrightarrow>
      server_main (before @ bad # after)
        = (fst (server_main before) @ fst (server_main after),
           snd (server_main before) @ SyntaxError # snd (server_main after)))
   \<and> (JSON_parse bad = None \<longrightarrow> inbox s = [] \<longrightarrow>
        fst (remote (peer s) (request_line m p (Some (JNum (int (lastId s)))))) = bad # others \<longrightarrow>
        fst (send remote m p False s) = Throw SyntaxError
        \<and> inbox (snd (send remote m p False s)) = others)"
proof -
  have srv: "server_main (before @ bad # after)
        = (fst (server_main before) @ fst (server_main after),
           snd (server_main before) @ SyntaxError # snd (server_main after))" if "JSON_parse bad = None"
    using that server_main_append[of before "bad # after"]
    by (simp add: server_step_def case_prod_unfold Let_def)
  have cli: "fst (send remote m p False s) = Throw SyntaxError \<and> inbox (snd (send remote m p False s)) = others"
    if "JSON_parse bad = None" "inbox s = []"
      "fst (remote (peer s) (request_line m p (Some (JNum (int (lastId s)))))) = bad # others"
    using that by (simp add: send_def Let_def case_prod_unfold)
  show ?thesis using srv cli by blast
qed

text \<open>C7, witness: the bad line between two \<^verbatim>\<open>ping\<close> requests on the server, and as the
  first of two lines a peer writes on the client.\<close>

theorem malformed_line_server_skips_client_throws_witness:
  \<open>JSON_parse ''not json'' = None
   \<and> server_main ([''{"jsonrpc":"2.0","id":0,"method":"ping"}''] @ ''not json'' # [''{"jsonrpc":"2.0","id":1,"method":"ping"}''])
       = (fst (server_main [''{"jsonrpc":"2.0","id":0,"method":"ping"}'']) @ fst (server_main [''{"jsonrpc":"2.0","id":1,"method":"ping"}'']),
          snd (server_main [''{"jsonrpc":"2.0","id":0,"method":"ping"}'']) @ SyntaxError # snd (server_main [''{"jsonrpc":"2.0","id":1,"method":"ping"}'']))
   \<and> inbox (fresh_session [[''not json'', ''{"jsonrpc":"2.0","id":0,"result":{}}'']]) = []
   \<and> fst (send scripted_remote ''ping'' (JObj []) False
         (fresh_session [[''not json'', ''{"jsonrpc":"2.0","id":0,"result":{}}'']])) = Throw SyntaxError
   \<and> inbox (snd (send scripted_remote ''ping'' (JObj []) False
         (fresh_session [[''not json'', ''{"jsonrpc":"2.0","id":0,"result":{}}'']])))
       = [''{"jsonrpc":"2.0","id":0,"result":{}}'']\<close>
proof -
  let ?s = \<open>fresh_session [[''not json'', ''{"jsonrpc":"2.0","id":0,"result":{}}'']]\<close>
  have h1: "JSON_parse ''not json'' = None" by code_simp
  have h2: "inbox ?s = []" by (simp add: fresh_session_def)
  have h3: \<open>fst (scripted_remote (peer ?s) (request_line ''ping'' (JObj []) (Some (JNum (int (lastId ?s))))))
     = ''not json'' # [''{"jsonrpc":"2.0","id":0,"result":{}}'']\<close>
    by (simp add: fresh_session_def)
  from malformed_line_server_skips_client_throws[of "''not json''"
      \<open>[''{"jsonrpc":"2.0","id":0,"method":"ping"}'']\<close> \<open>[''{"jsonrpc":"2.0","id":1,"method":"ping"}'']\<close>
      ?s scripted_remote "''ping''" "JObj []" \<open>[''{"jsonrpc":"2.0","id":0,"result":{}}'']\<close>]
    h1 h2 h3
  show ?thesis by blast
qed

text \<open>C7, counterexample: a reply stream with one invalid line between two valid
  responses. The first call gets the first response; the second call reads the invalid
  line and throws, and the valid response for it is never delivered.\<close>

theorem malformed_reply_counterexample:
  \<open>fst (sends scripted_remote [(''ping'', JObj [], False), (''ping'', JObj [], False)]
         (fresh_session [[''{"jsonrpc":"2.0","id":0,"result":{}}''],
                         [''not json'', ''{"jsonrpc":"2.0","id":1,"result":{}}'']]))
     = [Ok (Some (JObj [])), Throw SyntaxError]\<close>
  by code_simp

text \<open>
  C8. Running the bootstrap sequence any number of times on a session with nothing
  unread gives the same catalogs every time: the server's two tools with their
  descriptions and input schemas, in the order of the source, and its one resource. What
  the server writes for a line does not depend on the lines it handled before.
\<close>

theorem bootstrap_catalog_is_stable:
  "(inbox s = [] \<longrightarrow> fst (bootstraps server_remote k s) = replicate k (Ok server_catalog))
   \<and> fst (server_main (earlier @ [line])) = fst (server_main earlier) @ fst (server_step line)"
  using bootstraps_server[of s k] server_main_append[of earlier "[line]"]
  by (simp add: case_prod_unfold)

text \<open>C8, witness: three runs on a fresh session.\<close>

theorem bootstrap_catalog_is_stable_witness:
  "inbox (fresh_session ()) = []
   \<and> fst (bootstraps server_remote 3 (fresh_session ())) = replicate 3 (Ok server_catalog)"
  using bootstrap_catalog_is_stable[of "fresh_session ()" 3]
  by (simp add: fresh_session_def)

text \<open>
  C9. A line that is valid JSON and whose method is none of the six the loop has a branch
  for makes the server write nothing, whatever else the line carries. So a call of such
  a method on a session with nothing unread never resumes, and the notification
  \<^verbatim>\<open>notifications/initialized\<close> is taken silently: it returns at once and leaves nothing
  to read.
\<close>

theorem unknown_method_gets_no_reply:
  "(JSON_parse line = Some j \<longrightarrow>
      (\<forall>k \<in> set known_methods. opt_prop ''method'' (Some j) \<noteq> Some (JStr k)) \<longrightarrow>
      fst (server_step line) = [])
   \<and> (m \<notin> set known_methods \<longrightarrow> inbox s = [] \<longrightarrow> fst (send server_remote m p False s) = Blocked)
   \<and> send server_remote ''notifications/initialized'' p True s
       = (Ok None, s\<lparr>sent := sent s @ [request_line ''notifications/initialized'' p None]\<rparr>)"
proof -
  have a: "fst (server_step line) = []"
    if "JSON_parse line = Some j" "\<forall>k \<in> set known_methods. opt_prop ''method'' (Some j) \<noteq> Some (JStr k)"
    using that handle_unknown[of j] by (simp add: server_step_def Let_def)
  have nk: "''notifications/initialized'' \<notin> set known_methods"
    by (simp add: known_methods_def)
  show ?thesis using a send_blocked[of m s p] send_notification[OF nk, of p s] by blast
qed

text \<open>C9, witness: a request with an identifier for a method the server does not know.\<close>

theorem unknown_method_gets_no_reply_witness:
  \<open>JSON_parse ''{"jsonrpc":"2.0","id":7,"method":"prompts/list","params":{}}''
     = Some (JObj [(''jsonrpc'', JStr ''2.0''), (''id'', JNum 7), (''method'', JStr ''prompts/list''), (''params'', JObj [])])
   \<and> fst (server_step ''{"jsonrpc":"2.0","id":7,"method":"prompts/list","params":{}}'') = []
   \<and> ''prompts/list'' \<notin> set known_methods
   \<and> inbox (fresh_session ()) = []
   \<and> fst (send server_remote ''prompts/list'' (JObj []) False (fresh_session ())) = Blocked\<close>
proof -
  let ?j = "JObj [(''jsonrpc'', JStr ''2.0''), (''id'', JNum 7), (''method'', JStr ''prompts/list''), (''params'', JObj [])]"
  have h1: \<open>JSON_parse ''{"jsonrpc":"2.0","id":7,"method":"prompts/list","params":{}}'' = Some ?j\<close>
    by code_simp
  have h2: "\<forall>k \<in> set known_methods. opt_prop ''method'' (Some ?j) \<noteq> Some (JStr k)"
    by (simp add: known_methods_def lookup_def)
  have h3: "''prompts/list'' \<notin> set known_methods" by (simp add: known_methods_def)
  have h4: "inbox (fresh_session ()) = []" by (simp add: fresh_session_def)
  from unknown_method_gets_no_reply[of \<open>''{"jsonrpc":"2.0","id":7,"method":"prompts/list","params":{}}''\<close>
      ?j "''prompts/list''" "fresh_session ()" "JObj []"] h1 h2 h3 h4
  show ?thesis by blast
qed

section \<open>The claims about the tool-invocation loop\<close>









end
